theory Spec2Isabelle
  imports Main "HOL-Library.Sublist"
begin

section \<open>Values and exceptions\<close>

text \<open>
  The exceptions the modelled code can raise. A function that can raise returns a value of
  \<open>py_error + 'a\<close>, with \<open>Inl\<close> for the exception.
\<close>

datatype py_error = IndexError | AttributeError | KeyError | ValueError | TypeError

text \<open>
  A structured log is the Python dict handed from the parser to the rule engine. Only the keys
  \<open>user\<close> and \<open>action\<close> are ever read; their values are strings
  (\<open>user_state: Dict[str, Set[str]]\<close>), so the dict is a partial map from key to string.
\<close>

type_synonym structured_log = "string \<rightharpoonup> string"

text \<open>
  What \<open>json.loads\<close> can return: a dict, or any other JSON value. A float is represented by
  an integer with the same truth value, which is all the program reads of a number.
\<close>

datatype json =
    JDict structured_log
  | JNull
  | JBool bool
  | JNumber int
  | JString string
  | JList "json list"

text \<open>\<open>bool(x)\<close>, as in \<open>not structured_data\<close>.\<close>

fun json_truthy :: "json \<Rightarrow> bool" where
  "json_truthy (JDict d) = (d \<noteq> Map.empty)"
| "json_truthy JNull = False"
| "json_truthy (JBool b) = b"
| "json_truthy (JNumber n) = (n \<noteq> 0)"
| "json_truthy (JString s) = (s \<noteq> [])"
| "json_truthy (JList xs) = (xs \<noteq> [])"

text \<open>\<open>sub in s\<close> on strings.\<close>

fun contains :: "string \<Rightarrow> string \<Rightarrow> bool" where
  "contains sub [] = (sub = [])"
| "contains sub (c # cs) = (prefix sub (c # cs) \<or> contains sub cs)"

text \<open>
  \<open>key in x\<close> for a string \<open>key\<close>: a key of a dict, a substring of a string, an element of a
  list; \<open>None\<close>, a bool and a number are not iterable (TypeError).
\<close>

fun is_string :: "string \<Rightarrow> json \<Rightarrow> bool" where
  "is_string k (JString s) = (s = k)"
| "is_string k _ = False"

fun json_in :: "string \<Rightarrow> json \<Rightarrow> py_error + bool" where
  "json_in k (JDict d) = Inr (k \<in> dom d)"
| "json_in k (JString s) = Inr (contains k s)"
| "json_in k (JList xs) = Inr (list_ex (is_string k) xs)"
| "json_in k JNull = Inl TypeError"
| "json_in k (JBool b) = Inl TypeError"
| "json_in k (JNumber n) = Inl TypeError"

section \<open>The rule engine (modules/rule\_engine.py)\<close>

text \<open>
  The rule document \<open>config/config.yaml\<close> is not part of the sources, so what it holds is a
  parameter. \<open>_load_rules\<close> does not validate it, so the model keeps the shapes on which
  \<open>analyze_log\<close> behaves differently:
  \<^item> the \<open>rules\<close> entry is a dict of named rules, or something else (\<open>None\<close>, a list, a scalar),
    which has no \<open>get\<close>;
  \<^item> the value of a rule is a dict, or a false value (\<open>None\<close>, as \<open>if sod_rule:\<close> skips it), or
    a true value that is not a dict;
  \<^item> a rule dict may lack \<open>id\<close>; its \<open>conflict_actions\<close> (\<open>[]\<close> when the key is missing) is a
    list of entries, each a list of action names of any length. A two-character string entry
    unpacks like the list of its two characters and is represented by that list.
  Action names are strings; a \<open>conflict_actions\<close> value or an entry that cannot be iterated is
  not represented.
\<close>

record sod_rule =
  rule_id :: "string option"
  conflict_actions :: "string list list"

datatype rule_value = Rule sod_rule | RuleFalse | RuleNotDict

datatype rules_value = Rules "string \<rightharpoonup> rule_value" | RulesNotDict

record RuleEngine =
  rules :: rules_value
  user_state :: "string \<rightharpoonup> string set"

text \<open>
  What \<open>_load_rules\<close> can meet: \<open>open\<close> raises, \<open>yaml.safe_load\<close> raises, or a document is
  parsed. A parsed document whose top level is not a mapping makes \<open>config.get\<close> raise
  (AttributeError), which the \<open>except\<close> catches like the others; a mapping may or may not have
  the key \<open>rules\<close>, and \<open>config.get("rules", {})\<close> returns its value as it is.
\<close>

datatype yaml_document = NotAMapping | Mapping "rules_value option"

datatype config_source = OpenFails | YamlError | Parsed yaml_document

fun load_rules :: "config_source \<Rightarrow> rules_value" where
  "load_rules (Parsed (Mapping (Some r))) = r"
| "load_rules (Parsed (Mapping None)) = Rules Map.empty"
| "load_rules (Parsed NotAMapping) = Rules Map.empty"
| "load_rules YamlError = Rules Map.empty"
| "load_rules OpenFails = Rules Map.empty"

definition RuleEngine_init :: "config_source \<Rightarrow> RuleEngine" where
  "RuleEngine_init src = \<lparr>rules = load_rules src, user_state = Map.empty\<rparr>"

text \<open>
  The f-string of the violation message, given the value of \<open>sod_rule['id']\<close>;
  \<open>CHR 0x27\<close> is the single quote.
\<close>

definition violation_msg :: "string \<Rightarrow> string \<Rightarrow> string \<Rightarrow> string \<Rightarrow> string" where
  "violation_msg control_id user action_a action_b =
     ''SoD VIOLATION DETECTED ('' @ control_id @ ''): '' @
     ''User '' @ [CHR 0x27] @ user @ [CHR 0x27] @ '' performed conflicting actions: '' @
     action_a @ '' + '' @ action_b"

text \<open>
  The loop over \<open>conflict_pairs\<close>, appending to \<open>violations\<close>. Unpacking an entry that has
  not two elements raises ValueError; \<open>sod_rule['id']\<close> is read only when a message is built
  and raises KeyError when the rule has no id. An exception ends the loop and the call.
\<close>

fun check_conflicts ::
  "sod_rule \<Rightarrow> string \<Rightarrow> string set \<Rightarrow> string list list \<Rightarrow> string list \<Rightarrow> py_error + string list" where
  "check_conflicts sod user acts [] violations = Inr violations"
| "check_conflicts sod user acts (conflict # conflict_pairs) violations =
     (case conflict of
        [action_a, action_b] \<Rightarrow>
          (let has_a = action_a \<in> acts; has_b = action_b \<in> acts
           in if has_a \<and> has_b
              then (case rule_id sod of
                      None \<Rightarrow> Inl KeyError
                    | Some control_id \<Rightarrow>
                        check_conflicts sod user acts conflict_pairs
                          (violations @ [violation_msg control_id user action_a action_b]))
              else check_conflicts sod user acts conflict_pairs violations)
      | _ \<Rightarrow> Inl ValueError)"

text \<open>
  \<open>if user not in self.user_state: self.user_state[user] = set()\<close> followed by
  \<open>self.user_state[user].add(action)\<close>.
\<close>

definition update_user_state ::
  "(string \<rightharpoonup> string set) \<Rightarrow> string \<Rightarrow> string \<Rightarrow> (string \<rightharpoonup> string set)" where
  "update_user_state st user action =
     (let st1 = (if user \<notin> dom st then st(user \<mapsto> {}) else st)
      in case st1 user of
           Some s \<Rightarrow> st1(user \<mapsto> insert action s)
         | None \<Rightarrow> st1)"

text \<open>
  The part of \<open>analyze_log\<close> after the state update, on the engine already updated: the
  lookup of the rule \<open>nist_ac2_sod\<close> and the loop. The lookup \<open>self.user_state[user]\<close> in the
  loop always finds the set just stored, so its \<open>None\<close> branch is never taken.
\<close>

definition check_sod :: "RuleEngine \<Rightarrow> string \<Rightarrow> py_error + string list" where
  "check_sod eng user =
     (case rules eng of
        RulesNotDict \<Rightarrow> Inl AttributeError
      | Rules rs \<Rightarrow>
          (case rs ''nist_ac2_sod'' of
             None \<Rightarrow> Inr []
           | Some RuleFalse \<Rightarrow> Inr []
           | Some RuleNotDict \<Rightarrow> Inl AttributeError
           | Some (Rule sod) \<Rightarrow>
               (case user_state eng user of
                  None \<Rightarrow> Inl KeyError
                | Some acts \<Rightarrow> check_conflicts sod user acts (conflict_actions sod) [])))"

text \<open>
  \<open>analyze_log\<close> returns the violation list, or the exception it raises, together with the
  engine after the call: an exception raised after the state update leaves the update in
  place. An argument that is not a dict has no \<open>get\<close>. \<open>not user\<close> holds for a missing key
  (\<open>None\<close>) and for the empty string.
\<close>

definition analyze_log :: "RuleEngine \<Rightarrow> json \<Rightarrow> (py_error + string list) \<times> RuleEngine" where
  "analyze_log eng structured_log =
     (case structured_log of
        JDict d \<Rightarrow>
          (case d ''user'' of
             None \<Rightarrow> (Inr [], eng)
           | Some user \<Rightarrow>
               (case d ''action'' of
                  None \<Rightarrow> (Inr [], eng)
                | Some action \<Rightarrow>
                    if user = [] \<or> action = [] then (Inr [], eng)
                    else
                      let eng1 = eng\<lparr>user_state := update_user_state (user_state eng) user action\<rparr>
                      in (check_sod eng1 user, eng1)))
      | _ \<Rightarrow> (Inl AttributeError, eng))"

text \<open>The action set recorded for an actor; an actor never seen has none.\<close>

definition actions_of :: "RuleEngine \<Rightarrow> string \<Rightarrow> string set" where
  "actions_of eng user = (case user_state eng user of None \<Rightarrow> {} | Some s \<Rightarrow> s)"

text \<open>
  A sequence of calls on the shared engine, each made whatever the one before returned or
  raised: the results in order, and the engine after.
\<close>

fun analyze_seq ::
  "RuleEngine \<Rightarrow> json list \<Rightarrow> (py_error + string list) list \<times> RuleEngine" where
  "analyze_seq eng [] = ([], eng)"
| "analyze_seq eng (ev # evs) =
     (let (v, eng1) = analyze_log eng ev;
          (vs, eng2) = analyze_seq eng1 evs
      in (v # vs, eng2))"

section \<open>The collaborators the pipeline calls\<close>

text \<open>
  Four things come from outside the program and are parameters of the model: the SHA-256 of
  \<open>hashlib\<close>, the reply of the Ollama service, \<open>uuid.uuid4\<close> and \<open>datetime.now\<close>. The request
  sent to Ollama is built from the log line alone, so its reply is a function of the log line:
  \<open>Some j\<close> when \<open>json.loads\<close> returns the value \<open>j\<close>, and \<open>None\<close> for every exception inside
  the \<open>try\<close> of \<open>parse_log_with_phi3\<close> (connection, HTTP status, JSON decoding). The two
  generators are read at the index held in \<open>clock\<close>, which every reading advances. Output
  printed to the terminal is not modelled, and the database and the file system do not fail.
\<close>

record env =
  sha256_hexdigest :: "string \<Rightarrow> string"
  ollama :: "string \<Rightarrow> json option"
  uuid4 :: "nat \<Rightarrow> string"
  now_isoformat :: "nat \<Rightarrow> string"

subsection \<open>core/hasher.py\<close>

definition generate_sha256 :: "env \<Rightarrow> string \<Rightarrow> string" where
  "generate_sha256 env content = sha256_hexdigest env content"

definition verify_integrity :: "env \<Rightarrow> string \<Rightarrow> string \<Rightarrow> bool" where
  "verify_integrity env content baseline_hash =
     (let current_hash = generate_sha256 env content in current_hash = baseline_hash)"

subsection \<open>modules/parser.py\<close>

definition parse_log_with_phi3 :: "env \<Rightarrow> string \<Rightarrow> json" where
  "parse_log_with_phi3 env log_line =
     (case ollama env log_line of Some j \<Rightarrow> j | None \<Rightarrow> JDict Map.empty)"

subsection \<open>modules/reporter.py and core/database.py\<close>

record source_log =
  Raw :: string
  IntegrityVerified :: bool

record artifact =
  EvidenceID :: string
  Timestamp :: string
  NIST_Control :: string
  Status :: string
  SourceLog :: source_log
  Details :: json
  ViolationReason :: "string option"

text \<open>
  A row of \<open>IntegrityBaseline\<close> as \<open>save_log_baseline\<close> inserts it (its \<open>Timestamp\<close> column is
  filled by SQLite), and a row of \<open>AuditItems\<close>. The evidence column holds the artifact, or
  \<open>None\<close> for the empty dict \<open>{}\<close>.
\<close>

record baseline_row =
  LogID :: nat
  LogLine :: string
  HashSHA256 :: string

record audit_row =
  AuditID :: nat
  audit_LogID :: nat
  audit_Timestamp :: string
  UserID :: string
  Action :: string
  Verdict :: string
  audit_NIST_Control :: string
  EvidenceArtifact :: "artifact option"

text \<open>
  \<open>calls\<close> is a record the model keeps of the calls made to the parser and to the rule
  engine, in order; the program has no such variable. \<open>files\<close> lists every file written by
  \<open>save_artifact\<close>, name and content.
\<close>

datatype call = ParseCall string | AnalyzeCall json

record world =
  engine :: RuleEngine
  files :: "(string \<times> artifact) list"
  IntegrityBaseline :: "baseline_row list"
  AuditItems :: "audit_row list"
  calls :: "call list"
  clock :: nat

text \<open>Python's truth value of an optional string: \<open>None\<close> and \<open>""\<close> are false.\<close>

definition truthy :: "string option \<Rightarrow> bool" where
  "truthy v = (case v of None \<Rightarrow> False | Some s \<Rightarrow> s \<noteq> [])"

definition generate_evidence_artifact ::
  "env \<Rightarrow> string \<Rightarrow> json \<Rightarrow> bool \<Rightarrow> string option \<Rightarrow> world \<Rightarrow> artifact \<times> world" where
  "generate_evidence_artifact env log_line structured_data integrity_status violation w =
     (let art = \<lparr>EvidenceID = uuid4 env (clock w),
                 Timestamp = now_isoformat env (clock w),
                 NIST_Control = ''AC-5 (Separation of Duties)'',
                 Status = (if truthy violation then ''VIOLATION'' else ''COMPLIANT''),
                 SourceLog = \<lparr>Raw = log_line, IntegrityVerified = integrity_status\<rparr>,
                 Details = structured_data,
                 ViolationReason = None\<rparr>;
          w1 = w\<lparr>clock := Suc (clock w)\<rparr>
      in if truthy violation then (art\<lparr>ViolationReason := violation\<rparr>, w1) else (art, w1))"

definition ARTIFACTS_DIR :: string where
  "ARTIFACTS_DIR = ''data/artifacts''"

definition save_artifact :: "artifact \<Rightarrow> world \<Rightarrow> world" where
  "save_artifact art w =
     (let filename = ARTIFACTS_DIR @ ''/'' @ EvidenceID art @ ''.json''
      in w\<lparr>files := files w @ [(filename, art)]\<rparr>)"

text \<open>\<open>cursor.lastrowid\<close> of an AUTOINCREMENT key in a table that is only appended to.\<close>

definition next_rowid :: "nat list \<Rightarrow> nat" where
  "next_rowid ids = Suc (fold max ids 0)"

definition save_log_baseline :: "string \<Rightarrow> string \<Rightarrow> world \<Rightarrow> nat \<times> world" where
  "save_log_baseline raw_log log_hash w =
     (let i = next_rowid (map LogID (IntegrityBaseline w))
      in (i, w\<lparr>IntegrityBaseline :=
                 IntegrityBaseline w @ [\<lparr>LogID = i, LogLine = raw_log, HashSHA256 = log_hash\<rparr>]\<rparr>))"

definition save_audit_item ::
  "env \<Rightarrow> nat \<Rightarrow> string \<Rightarrow> string \<Rightarrow> string \<Rightarrow> string \<Rightarrow> artifact option \<Rightarrow> world \<Rightarrow> world" where
  "save_audit_item env log_id user_id action verdict nist_control evidence_json w =
     w\<lparr>AuditItems := AuditItems w @
          [\<lparr>AuditID = next_rowid (map AuditID (AuditItems w)),
            audit_LogID = log_id,
            audit_Timestamp = now_isoformat env (clock w),
            UserID = user_id,
            Action = action,
            Verdict = verdict,
            audit_NIST_Control = nist_control,
            EvidenceArtifact = evidence_json\<rparr>],
       clock := Suc (clock w)\<rparr>"

section \<open>The pipeline (main.py)\<close>

subsection \<open>The string operations of the fallback\<close>

text \<open>
  \<open>s.split(sep)\<close> for a non-empty separator: the text is cut at each leftmost occurrence of
  \<open>sep\<close>, scanning left to right; \<open>cur\<close> is the piece being read.
\<close>

function split_from :: "string \<Rightarrow> string \<Rightarrow> string \<Rightarrow> string list" where
  "split_from sep cur [] = [cur]"
| "split_from sep cur (c # cs) =
     (if sep \<noteq> [] \<and> prefix sep (c # cs)
      then cur # split_from sep [] (drop (length sep) (c # cs))
      else split_from sep (cur @ [c]) cs)"
  by pat_completeness auto
termination
  by (relation "measure (\<lambda>(sep, cur, s). length s)") auto

definition split :: "string \<Rightarrow> string \<Rightarrow> string list" where
  "split s sep = split_from sep [] s"

definition index :: "'a list \<Rightarrow> nat \<Rightarrow> py_error + 'a" where
  "index xs i = (if i < length xs then Inr (xs ! i) else Inl IndexError)"

text \<open>
  The body of the \<open>try\<close>:
  \<open>parts = raw_log.split("User ")[1].split(" executed action: ")\<close> and
  \<open>{"user": parts[0], "action": parts[1].split(" ")[0]}\<close>.
\<close>

definition fallback_split :: "string \<Rightarrow> py_error + structured_log" where
  "fallback_split raw_log =
     (case index (split raw_log ''User '') 1 of
        Inl e \<Rightarrow> Inl e
      | Inr rest \<Rightarrow>
          (let parts = split rest '' executed action: '' in
           case index parts 0 of
             Inl e \<Rightarrow> Inl e
           | Inr p0 \<Rightarrow>
               (case index parts 1 of
                  Inl e \<Rightarrow> Inl e
                | Inr p1 \<Rightarrow>
                    (case index (split p1 '' '') 0 of
                       Inl e \<Rightarrow> Inl e
                     | Inr a \<Rightarrow> Inr [''user'' \<mapsto> p0, ''action'' \<mapsto> a]))))"

text \<open>
  Step 2b, entered when \<open>not structured_data or "action" not in structured_data\<close> holds: the
  fallback on a line with the marker, where \<open>except IndexError\<close> gives the empty dict;
  otherwise \<open>structured_data\<close> stays as it is.
\<close>

definition fallback_parsing :: "string \<Rightarrow> json \<Rightarrow> py_error + json" where
  "fallback_parsing raw_log structured_data =
     (if contains ''executed action:'' raw_log
      then (case fallback_split raw_log of
              Inr d \<Rightarrow> Inr (JDict d)
            | Inl IndexError \<Rightarrow> Inr (JDict Map.empty)
            | Inl e \<Rightarrow> Inl e)
      else Inr structured_data)"

text \<open>
  Steps 2 and 2b. The test \<open>"action" not in structured_data\<close> is evaluated only when
  \<open>structured_data\<close> is true, and raises TypeError on a value that cannot be iterated.
\<close>

definition semantic_parsing :: "env \<Rightarrow> string \<Rightarrow> py_error + json" where
  "semantic_parsing env raw_log =
     (let structured_data = parse_log_with_phi3 env raw_log
      in if \<not> json_truthy structured_data then fallback_parsing raw_log structured_data
         else (case json_in ''action'' structured_data of
                 Inl e \<Rightarrow> Inl e
               | Inr has_action \<Rightarrow>
                   if \<not> has_action then fallback_parsing raw_log structured_data
                   else Inr structured_data))"

text \<open>\<open>d.get(key, default)\<close>.\<close>

definition dict_get :: "structured_log \<Rightarrow> string \<Rightarrow> string \<Rightarrow> string" where
  "dict_get d k dflt = (case d k of None \<Rightarrow> dflt | Some v \<Rightarrow> v)"

text \<open>The loop \<open>for v in violations\<close> of step 4, for \<open>structured_data\<close> the dict \<open>d\<close>.\<close>

fun report_violations ::
  "env \<Rightarrow> string \<Rightarrow> structured_log \<Rightarrow> bool \<Rightarrow> nat \<Rightarrow> string list \<Rightarrow> world \<Rightarrow> world" where
  "report_violations env raw_log d integrity_status log_id [] w = w"
| "report_violations env raw_log d integrity_status log_id (v # vs) w =
     (let (art, w1) = generate_evidence_artifact env raw_log (JDict d) integrity_status (Some v) w;
          w2 = save_artifact art w1;
          w3 = save_audit_item env log_id
                 (dict_get d ''user'' ''unknown'')
                 (dict_get d ''action'' ''unknown'')
                 ''Violation'' ''AC-5'' (Some art) w2
      in report_violations env raw_log d integrity_status log_id vs w3)"

text \<open>
  Steps 2 to 4, reached when the integrity check passed or was not asked for. The result is
  \<open>Inr True\<close> for \<open>return True\<close>, or the exception raised, with the state reached then. Once
  \<open>analyze_log\<close> has returned, \<open>structured_data\<close> is a dict (on anything else it raises), so the
  \<open>structured_data.get\<close> of step 4 does not raise: the last branch is never taken.
\<close>

definition process_log ::
  "env \<Rightarrow> string \<Rightarrow> string \<Rightarrow> bool \<Rightarrow> world \<Rightarrow> (py_error + bool) \<times> world" where
  "process_log env raw_log current_hash integrity_status w =
     (let w1 = w\<lparr>calls := calls w @ [ParseCall raw_log]\<rparr>
      in case semantic_parsing env raw_log of
           Inl e \<Rightarrow> (Inl e, w1)
         | Inr structured_data \<Rightarrow>
             (let (result, eng1) = analyze_log (engine w1) structured_data;
                  w2 = w1\<lparr>engine := eng1, calls := calls w1 @ [AnalyzeCall structured_data]\<rparr>
              in case result of
                   Inl e \<Rightarrow> (Inl e, w2)
                 | Inr violations \<Rightarrow>
                     (let (log_id, w3) = save_log_baseline raw_log current_hash w2
                      in case structured_data of
                           JDict d \<Rightarrow>
                             (Inr True,
                              if violations \<noteq> []
                              then report_violations env raw_log d integrity_status log_id
                                     violations w3
                              else save_audit_item env log_id
                                     (dict_get d ''user'' ''unknown'')
                                     (dict_get d ''action'' ''unknown'')
                                     ''Clear'' ''AC-5'' None w3)
                         | _ \<Rightarrow> (Inl AttributeError, w3))))"

definition tamper_abort :: "env \<Rightarrow> string \<Rightarrow> world \<Rightarrow> (py_error + bool) \<times> world" where
  "tamper_abort env raw_log w =
     (let (art, w1) = generate_evidence_artifact env raw_log
                        (JDict [''Event'' \<mapsto> ''Tampering Detected''])
                        False (Some ''Hash Mismatch - Potential Log Tampering'') w;
          w2 = save_artifact art w1
      in (Inr False, w2))"

definition run_pipeline ::
  "env \<Rightarrow> string \<Rightarrow> string option \<Rightarrow> world \<Rightarrow> (py_error + bool) \<times> world" where
  "run_pipeline env raw_log expected_hash w =
     (let current_hash = generate_sha256 env raw_log
      in case expected_hash of
           None \<Rightarrow> process_log env raw_log current_hash True w
         | Some h \<Rightarrow>
             if truthy expected_hash
             then (let integrity_status = verify_integrity env raw_log h
                   in if \<not> integrity_status then tamper_abort env raw_log w
                      else process_log env raw_log current_hash integrity_status w)
             else process_log env raw_log current_hash True w)"

section \<open>Observations and concrete scenarios\<close>

text \<open>The violation reason carried by the evidence column of a finding row, if any.\<close>

definition reason_of :: "audit_row \<Rightarrow> string option" where
  "reason_of r = (case EvidenceArtifact r of None \<Rightarrow> None | Some a \<Rightarrow> ViolationReason a)"

text \<open>
  For the concrete scenarios: stand-ins for the four outside functions (the digest stand-in is
  injective and never empty, as a hex digest is), with the parser service answering \<open>reply\<close>
  to every request; and the state after \<open>init_db\<close> on a new database with no artifact written.
\<close>

definition stub_env :: "json option \<Rightarrow> env" where
  "stub_env reply =
     \<lparr>sha256_hexdigest = (\<lambda>s. ''sha256:'' @ s),
      ollama = (\<lambda>_. reply),
      uuid4 = (\<lambda>n. ''uuid-'' @ replicate n (CHR ''i'')),
      now_isoformat = (\<lambda>n. ''T'' @ replicate n (CHR ''t''))\<rparr>"

definition fresh_world :: "RuleEngine \<Rightarrow> world" where
  "fresh_world eng =
     \<lparr>engine = eng, files = [], IntegrityBaseline = [], AuditItems = [], calls = [], clock = 0\<rparr>"

text \<open>
  The \<open>rules\<close> entry of a document of the shape the rule engine reads: one rule
  \<open>nist_ac2_sod\<close> with the given control id and two-element conflict entries.
\<close>

definition sod_policy :: "string \<Rightarrow> (string \<times> string) list \<Rightarrow> rules_value" where
  "sod_policy cid pairs =
     Rules [''nist_ac2_sod'' \<mapsto>
              Rule \<lparr>rule_id = Some cid, conflict_actions = map (\<lambda>(a, b). [a, b]) pairs\<rparr>]"

text \<open>The event \<open>{"user": u, "action": a}\<close>.\<close>

definition event :: "string \<Rightarrow> string \<Rightarrow> json" where
  "event u a = JDict [''user'' \<mapsto> u, ''action'' \<mapsto> a]"

text \<open>A policy whose SoD rule lists two conflict pairs sharing an action.\<close>

definition two_pair_policy :: rules_value where
  "two_pair_policy = sod_policy ''AC-5''
     [(''Create_Invoice'', ''Approve_Payment''), (''Create_Invoice'', ''Delete_Invoice'')]"

text \<open>
  The condition under which \<open>run_pipeline\<close> takes its early \<open>return False\<close>:
  \<open>expected_hash\<close> is true as a Python condition and \<open>verify_integrity\<close> returns false.
\<close>

definition integrity_abort :: "env \<Rightarrow> string \<Rightarrow> string option \<Rightarrow> bool" where
  "integrity_abort env raw_log expected_hash =
     (case expected_hash of
        None \<Rightarrow> False
      | Some h \<Rightarrow> truthy expected_hash \<and> \<not> verify_integrity env raw_log h)"

text \<open>
  The loops of the main block, \<open>for log in logs: run_pipeline(log)\<close>: the state after the
  loop, which an exception ends.
\<close>

fun run_logs :: "env \<Rightarrow> string list \<Rightarrow> world \<Rightarrow> world" where
  "run_logs env [] w = w"
| "run_logs env (l # ls) w =
     (case run_pipeline env l None w of
        (Inl e, w1) \<Rightarrow> w1
      | (Inr r, w1) \<Rightarrow> run_logs env ls w1)"

section \<open>Properties of the rule engine\<close>

lemma update_user_state_eq:
  "update_user_state st user action =
     st(user \<mapsto> insert action (case st user of None \<Rightarrow> {} | Some s \<Rightarrow> s))"
  by (auto simp: update_user_state_def Let_def dom_def split: option.splits)

lemma check_conflicts_shaped:
  assumes "rule_id sod = Some cid" and "\<forall>c \<in> set cps. length c = 2"
  shows "check_conflicts sod user acts cps vs =
           Inr (vs @ map (\<lambda>c. violation_msg cid user (c ! 0) (c ! 1))
                      (filter (\<lambda>c. c ! 0 \<in> acts \<and> c ! 1 \<in> acts) cps))"
  using assms(2)
proof (induction cps arbitrary: vs)
  case Nil
  show ?case by simp
next
  case (Cons c cps)
  from Cons.prems have "length c = 2" by simp
  then obtain a b where c: "c = [a, b]"
    by (cases c; cases "tl c"; cases "tl (tl c)") auto
  have rest: "\<forall>c \<in> set cps. length c = 2"
    using Cons.prems by simp
  show ?case
    unfolding c using assms(1) by (simp add: Let_def Cons.IH [OF rest])
qed


lemma analyze_log_present:
  assumes "ev ''user'' = Some u" "u \<noteq> []" "ev ''action'' = Some a" "a \<noteq> []"
  shows "analyze_log eng (JDict ev) =
    (check_sod (eng\<lparr>user_state := (user_state eng)(u \<mapsto> insert a (actions_of eng u))\<rparr>) u,
     eng\<lparr>user_state := (user_state eng)(u \<mapsto> insert a (actions_of eng u))\<rparr>)"
  using assms
  by (simp add: analyze_log_def update_user_state_eq actions_of_def Let_def)

lemma analyze_log_rules: "rules (snd (analyze_log eng ev)) = rules eng"
  by (auto simp: analyze_log_def Let_def split: option.splits json.splits)

lemma analyze_log_mono: "actions_of eng u \<subseteq> actions_of (snd (analyze_log eng ev)) u"
  by (auto simp: analyze_log_def update_user_state_eq actions_of_def Let_def
      split: option.splits json.splits)

lemma analyze_log_dom: "dom (user_state eng) \<subseteq> dom (user_state (snd (analyze_log eng ev)))"
  by (auto simp: analyze_log_def update_user_state_eq Let_def split: option.splits json.splits)

lemma analyze_seq_snd_Cons:
  "snd (analyze_seq eng (ev # evs)) = snd (analyze_seq (snd (analyze_log eng ev)) evs)"
  by (simp add: split_beta)

lemma analyze_seq_fst_Cons:
  "fst (analyze_seq eng (ev # evs)) =
     fst (analyze_log eng ev) # fst (analyze_seq (snd (analyze_log eng ev)) evs)"
  by (simp add: split_beta)

lemma analyze_seq_rules: "rules (snd (analyze_seq eng evs)) = rules eng"
proof (induction evs arbitrary: eng)
  case Nil
  show ?case by simp
next
  case (Cons ev evs)
  show ?case
    unfolding analyze_seq_snd_Cons by (simp add: Cons.IH analyze_log_rules)
qed

lemma analyze_seq_mono: "actions_of eng u \<subseteq> actions_of (snd (analyze_seq eng evs)) u"
proof (induction evs arbitrary: eng)
  case Nil
  show ?case by simp
next
  case (Cons ev evs)
  have "actions_of eng u \<subseteq> actions_of (snd (analyze_log eng ev)) u"
    by (rule analyze_log_mono)
  also have "\<dots> \<subseteq> actions_of (snd (analyze_seq (snd (analyze_log eng ev)) evs)) u"
    by (rule Cons.IH)
  finally show ?case unfolding analyze_seq_snd_Cons .
qed

lemma analyze_seq_dom: "dom (user_state eng) \<subseteq> dom (user_state (snd (analyze_seq eng evs)))"
proof (induction evs arbitrary: eng)
  case Nil
  show ?case by simp
next
  case (Cons ev evs)
  have "dom (user_state eng) \<subseteq> dom (user_state (snd (analyze_log eng ev)))"
    by (rule analyze_log_dom)
  also have "\<dots> \<subseteq> dom (user_state (snd (analyze_seq (snd (analyze_log eng ev)) evs)))"
    by (rule Cons.IH)
  finally show ?case unfolding analyze_seq_snd_Cons .
qed

lemma analyze_log_no_rule:
  "rules eng = Rules rs \<Longrightarrow> rs ''nist_ac2_sod'' = None \<Longrightarrow>
   fst (analyze_log eng (JDict ev)) = Inr []"
  by (auto simp: analyze_log_def check_sod_def Let_def split: option.splits)

lemma analyze_seq_no_rule:
  "rules eng = Rules rs \<Longrightarrow> rs ''nist_ac2_sod'' = None \<Longrightarrow>
   \<forall>v \<in> set (fst (analyze_seq eng (map JDict evs))). v = Inr []"
proof (induction evs arbitrary: eng)
  case Nil
  show ?case by simp
next
  case (Cons ev evs)
  have "rules (snd (analyze_log eng (JDict ev))) = Rules rs"
    using Cons.prems by (simp add: analyze_log_rules)
  then have "\<forall>v \<in> set (fst (analyze_seq (snd (analyze_log eng (JDict ev))) (map JDict evs))).
               v = Inr []"
    using Cons.prems(2) by (rule Cons.IH)
  then show ?case
    unfolding list.map analyze_seq_fst_Cons
    using Cons.prems by (simp add: analyze_log_no_rule)
qed

lemma analyze_log_other_actor:
  "ev ''user'' \<noteq> Some B \<Longrightarrow> user_state (snd (analyze_log e (JDict ev))) B = user_state e B"
  by (auto simp: analyze_log_def update_user_state_eq Let_def split: option.splits)

lemma analyze_seq_other_actor:
  "\<forall>ev \<in> set evs. ev ''user'' \<noteq> Some B \<Longrightarrow>
   user_state (snd (analyze_seq e (map JDict evs))) B = user_state e B"
proof (induction evs arbitrary: e)
  case Nil
  show ?case by simp
next
  case (Cons ev evs)
  have "user_state (snd (analyze_seq (snd (analyze_log e (JDict ev))) (map JDict evs))) B =
        user_state (snd (analyze_log e (JDict ev))) B"
    using Cons.prems by (intro Cons.IH) simp
  also have "\<dots> = user_state e B"
    using Cons.prems by (intro analyze_log_other_actor) simp
  finally show ?case unfolding list.map analyze_seq_snd_Cons .
qed

lemma check_sod_depends:
  "rules e1 = rules e2 \<Longrightarrow> user_state e1 u = user_state e2 u \<Longrightarrow> check_sod e1 u = check_sod e2 u"
  by (simp add: check_sod_def split: rules_value.splits option.splits rule_value.splits)

lemma analyze_log_fst_depends:
  assumes "rules e1 = rules e2" and "ev ''user'' = Some B"
    and "actions_of e1 B = actions_of e2 B"
  shows "fst (analyze_log e1 (JDict ev)) = fst (analyze_log e2 (JDict ev))"
proof (cases "B = [] \<or> ev ''action'' = None \<or> ev ''action'' = Some []")
  case True
  then show ?thesis
    using assms(2) by (auto simp: analyze_log_def split: option.splits)
next
  case False
  then obtain a where a: "ev ''action'' = Some a" "a \<noteq> []" "B \<noteq> []"
    by auto
  show ?thesis
    unfolding analyze_log_present [OF assms(2) a(3) a(1) a(2)] fst_conv
    using assms(1,3) by (intro check_sod_depends) simp_all
qed

lemma analyze_log_event:
  assumes "u \<noteq> []" and "a \<noteq> []"
  shows "analyze_log eng (event u a) =
    (check_sod (eng\<lparr>user_state := (user_state eng)(u \<mapsto> insert a (actions_of eng u))\<rparr>) u,
     eng\<lparr>user_state := (user_state eng)(u \<mapsto> insert a (actions_of eng u))\<rparr>)"
  unfolding event_def using assms by (intro analyze_log_present) simp_all

lemma analyze_seq_accumulates:
  assumes "u \<noteq> []" and "\<forall>x \<in> set xs. x \<noteq> []"
  shows "actions_of (snd (analyze_seq eng (map (event u) xs))) u = actions_of eng u \<union> set xs"
  using assms(2)
proof (induction xs arbitrary: eng)
  case Nil
  show ?case by simp
next
  case (Cons x xs)
  have "actions_of (snd (analyze_log eng (event u x))) u = insert x (actions_of eng u)"
    using assms(1) Cons.prems by (simp add: analyze_log_event actions_of_def)
  moreover have "actions_of (snd (analyze_seq (snd (analyze_log eng (event u x))) (map (event u) xs))) u
                 = actions_of (snd (analyze_log eng (event u x))) u \<union> set xs"
    using Cons.prems by (intro Cons.IH) simp
  ultimately show ?case
    unfolding list.map analyze_seq_snd_Cons by auto
qed

lemma analyze_seq_events_no_rule:
  assumes "rules eng = Rules rs" and "rs ''nist_ac2_sod'' = None"
  shows "\<forall>v \<in> set (fst (analyze_seq eng (map (event u) xs))). v = Inr []"
proof -
  have eq: "map (event u) xs = map JDict (map (\<lambda>x. [''user'' \<mapsto> u, ''action'' \<mapsto> x]) xs)"
    by (simp add: event_def)
  show ?thesis
    unfolding eq by (rule analyze_seq_no_rule [OF assms])
qed

section \<open>Properties of the pipeline\<close>

lemma report_violations_frame:
  "engine (report_violations env raw d st lid vs w) = engine w \<and>
   IntegrityBaseline (report_violations env raw d st lid vs w) = IntegrityBaseline w \<and>
   calls (report_violations env raw d st lid vs w) = calls w"
  by (induction vs arbitrary: w)
     (simp_all add: generate_evidence_artifact_def save_artifact_def save_audit_item_def Let_def)

lemma report_violations_rows:
  "\<exists>rows. AuditItems (report_violations env raw d st lid vs w) = AuditItems w @ rows \<and>
          length rows = length vs \<and>
          (\<forall>r \<in> set rows. Verdict r = ''Violation'' \<and> audit_LogID r = lid \<and>
                           UserID r = dict_get d ''user'' ''unknown'' \<and>
                           Action r = dict_get d ''action'' ''unknown'' \<and>
                           EvidenceArtifact r \<noteq> None) \<and>
          map reason_of rows = map (\<lambda>v. if v = [] then None else Some v) vs"
proof (induction vs arbitrary: w)
  case Nil
  show ?case by simp
next
  case (Cons v vs)
  obtain art w1 where g: "generate_evidence_artifact env raw (JDict d) st (Some v) w = (art, w1)"
    by (cases "generate_evidence_artifact env raw (JDict d) st (Some v) w")
  let ?w3 = "save_audit_item env lid (dict_get d ''user'' ''unknown'')
               (dict_get d ''action'' ''unknown'') ''Violation'' ''AC-5'' (Some art)
               (save_artifact art w1)"
  have step: "report_violations env raw d st lid (v # vs) w =
                report_violations env raw d st lid vs ?w3"
    by (simp add: g)
  have va: "ViolationReason art = (if v = [] then None else Some v)"
    using g by (auto simp: generate_evidence_artifact_def truthy_def Let_def split: if_splits)
  have a1: "AuditItems w1 = AuditItems w"
    using g by (auto simp: generate_evidence_artifact_def Let_def split: if_splits)
  obtain row where row: "AuditItems ?w3 = AuditItems w @ [row]"
      "Verdict row = ''Violation''" "audit_LogID row = lid"
      "UserID row = dict_get d ''user'' ''unknown''"
      "Action row = dict_get d ''action'' ''unknown''"
      "EvidenceArtifact row = Some art"
    by (simp add: save_audit_item_def save_artifact_def a1)
  from Cons.IH [of ?w3] obtain rows where rows:
    "AuditItems (report_violations env raw d st lid vs ?w3) = AuditItems ?w3 @ rows"
    "length rows = length vs"
    "\<forall>r \<in> set rows. Verdict r = ''Violation'' \<and> audit_LogID r = lid \<and>
                           UserID r = dict_get d ''user'' ''unknown'' \<and>
                           Action r = dict_get d ''action'' ''unknown'' \<and>
                           EvidenceArtifact r \<noteq> None"
    "map reason_of rows = map (\<lambda>v. if v = [] then None else Some v) vs"
    by blast
  show ?case
    unfolding step
  proof (rule exI [of _ "row # rows"])
    have rr: "reason_of row = (if v = [] then None else Some v)"
      using row(6) va by (simp add: reason_of_def)
    show "AuditItems (report_violations env raw d st lid vs ?w3) = AuditItems w @ row # rows \<and>
          length (row # rows) = length (v # vs) \<and>
          (\<forall>r \<in> set (row # rows). Verdict r = ''Violation'' \<and> audit_LogID r = lid \<and>
                           UserID r = dict_get d ''user'' ''unknown'' \<and>
                           Action r = dict_get d ''action'' ''unknown'' \<and>
                           EvidenceArtifact r \<noteq> None) \<and>
          map reason_of (row # rows) = map (\<lambda>v. if v = [] then None else Some v) (v # vs)"
      using row rows rr by simp
  qed
qed

lemma report_violations_files:
  "\<exists>fs. files (report_violations env raw d st lid vs w) = files w @ fs \<and>
         length fs = length vs \<and>
         (\<forall>f \<in> set fs. Raw (SourceLog (snd f)) = raw \<and> IntegrityVerified (SourceLog (snd f)) = st \<and>
                         Details (snd f) = JDict d)"
proof (induction vs arbitrary: w)
  case Nil
  show ?case by simp
next
  case (Cons v vs)
  obtain art w1 where g: "generate_evidence_artifact env raw (JDict d) st (Some v) w = (art, w1)"
    by (cases "generate_evidence_artifact env raw (JDict d) st (Some v) w")
  let ?w3 = "save_audit_item env lid (dict_get d ''user'' ''unknown'')
               (dict_get d ''action'' ''unknown'') ''Violation'' ''AC-5'' (Some art)
               (save_artifact art w1)"
  have step: "report_violations env raw d st lid (v # vs) w =
                report_violations env raw d st lid vs ?w3"
    by (simp add: g)
  have a1: "files w1 = files w" "Raw (SourceLog art) = raw"
      "IntegrityVerified (SourceLog art) = st" "Details art = JDict d"
    using g by (auto simp: generate_evidence_artifact_def Let_def split: if_splits)
  have f3: "files ?w3 = files w @ [(ARTIFACTS_DIR @ ''/'' @ EvidenceID art @ ''.json'', art)]"
    by (simp add: save_audit_item_def save_artifact_def a1)
  from Cons.IH [of ?w3] obtain fs where fs:
    "files (report_violations env raw d st lid vs ?w3) = files ?w3 @ fs"
    "length fs = length vs"
    "\<forall>f \<in> set fs. Raw (SourceLog (snd f)) = raw \<and> IntegrityVerified (SourceLog (snd f)) = st \<and>
                         Details (snd f) = JDict d"
    by blast
  show ?case
    unfolding step
    by (rule exI [of _ "(ARTIFACTS_DIR @ ''/'' @ EvidenceID art @ ''.json'', art) # fs"])
       (use f3 fs a1 in simp)
qed

lemma process_log_ok:
  assumes "semantic_parsing env raw = Inr (JDict d)"
    and "fst (analyze_log (engine w) (JDict d)) = Inr vs"
  shows "process_log env raw h st w =
    (let lid = next_rowid (map LogID (IntegrityBaseline w));
         w3 = w\<lparr>engine := snd (analyze_log (engine w) (JDict d)),
                calls := calls w @ [ParseCall raw, AnalyzeCall (JDict d)],
                IntegrityBaseline := IntegrityBaseline w @
                  [\<lparr>LogID = lid, LogLine = raw, HashSHA256 = h\<rparr>]\<rparr>
     in (Inr True,
         if vs \<noteq> [] then report_violations env raw d st lid vs w3
         else save_audit_item env lid (dict_get d ''user'' ''unknown'')
                (dict_get d ''action'' ''unknown'') ''Clear'' ''AC-5'' None w3))"
  using assms
  by (simp add: process_log_def Let_def split_beta save_log_baseline_def)

lemma process_log_True:
  assumes "fst (process_log env raw h st w) = Inr True"
  shows "\<exists>d vs. semantic_parsing env raw = Inr (JDict d) \<and>
                fst (analyze_log (engine w) (JDict d)) = Inr vs"
  using assms
  by (auto simp: process_log_def Let_def split_beta split: sum.splits json.splits)

lemma process_log_outcome:
  assumes "semantic_parsing env raw = Inr (JDict d)"
  shows "fst (process_log env raw h st w) =
           (case fst (analyze_log (engine w) (JDict d)) of
              Inl e \<Rightarrow> Inl e
            | Inr vs \<Rightarrow> Inr True)"
  using assms
  by (simp add: process_log_def Let_def split_beta split: sum.splits)

lemma process_log_fst:
  assumes "semantic_parsing env raw = Inr (JDict d)"
    and "fst (analyze_log (engine w) (JDict d)) = Inr vs"
  shows "fst (process_log env raw h st w) = Inr True"
  using process_log_outcome [OF assms(1)] assms(2) by simp



lemma process_log_baseline:
  assumes "semantic_parsing env raw = Inr (JDict d)"
    and "fst (analyze_log (engine w) (JDict d)) = Inr vs"
  shows "IntegrityBaseline (snd (process_log env raw h st w)) =
     IntegrityBaseline w @
       [\<lparr>LogID = next_rowid (map LogID (IntegrityBaseline w)), LogLine = raw, HashSHA256 = h\<rparr>]"
  unfolding process_log_ok [OF assms]
  by (simp add: Let_def save_audit_item_def report_violations_frame)

lemma process_log_clear:
  assumes "semantic_parsing env raw = Inr (JDict d)"
    and "fst (analyze_log (engine w) (JDict d)) = Inr []"
  shows "AuditItems (snd (process_log env raw h st w)) =
     AuditItems w @
       [\<lparr>AuditID = next_rowid (map AuditID (AuditItems w)),
         audit_LogID = next_rowid (map LogID (IntegrityBaseline w)),
         audit_Timestamp = now_isoformat env (clock w),
         UserID = dict_get d ''user'' ''unknown'',
         Action = dict_get d ''action'' ''unknown'',
         Verdict = ''Clear'',
         audit_NIST_Control = ''AC-5'',
         EvidenceArtifact = None\<rparr>] \<and>
     files (snd (process_log env raw h st w)) = files w"
  unfolding process_log_ok [OF assms]
  by (simp add: Let_def save_audit_item_def)

lemma process_log_violation:
  assumes "semantic_parsing env raw = Inr (JDict d)"
    and "fst (analyze_log (engine w) (JDict d)) = Inr vs" and "vs \<noteq> []"
  shows "\<exists>rows. AuditItems (snd (process_log env raw h st w)) = AuditItems w @ rows \<and>
          length rows = length vs \<and>
          (\<forall>r \<in> set rows. Verdict r = ''Violation'' \<and>
                           audit_LogID r = next_rowid (map LogID (IntegrityBaseline w)) \<and>
                           EvidenceArtifact r \<noteq> None) \<and>
          map reason_of rows = map (\<lambda>v. if v = [] then None else Some v) vs"
proof -
  let ?lid = "next_rowid (map LogID (IntegrityBaseline w))"
  let ?w3 = "w\<lparr>engine := snd (analyze_log (engine w) (JDict d)),
                calls := calls w @ [ParseCall raw, AnalyzeCall (JDict d)],
                IntegrityBaseline := IntegrityBaseline w @
                  [\<lparr>LogID = ?lid, LogLine = raw, HashSHA256 = h\<rparr>]\<rparr>"
  have p: "snd (process_log env raw h st w) = report_violations env raw d st ?lid vs ?w3"
    unfolding process_log_ok [OF assms(1,2)] using assms(3) by (simp add: Let_def)
  have a: "AuditItems ?w3 = AuditItems w"
    by simp
  from report_violations_rows [of env raw d st ?lid vs ?w3]
  show ?thesis unfolding p a by blast
qed


lemma run_pipeline_cases:
  "run_pipeline env raw_log expected_hash w =
     (if integrity_abort env raw_log expected_hash then tamper_abort env raw_log w
      else process_log env raw_log (sha256_hexdigest env raw_log) True w)"
  by (auto simp: run_pipeline_def integrity_abort_def generate_sha256_def Let_def
      split: option.splits)

lemma tamper_abort_eq:
  "tamper_abort env raw_log w =
    (Inr False,
     w\<lparr>files := files w @
          [(ARTIFACTS_DIR @ ''/'' @ uuid4 env (clock w) @ ''.json'',
            \<lparr>EvidenceID = uuid4 env (clock w),
             Timestamp = now_isoformat env (clock w),
             NIST_Control = ''AC-5 (Separation of Duties)'',
             Status = ''VIOLATION'',
             SourceLog = \<lparr>Raw = raw_log, IntegrityVerified = False\<rparr>,
             Details = JDict [''Event'' \<mapsto> ''Tampering Detected''],
             ViolationReason = Some ''Hash Mismatch - Potential Log Tampering''\<rparr>)],
        clock := Suc (clock w)\<rparr>)"
  by (simp add: truthy_def tamper_abort_def generate_evidence_artifact_def save_artifact_def Let_def)

lemma run_pipeline_normal:
  assumes "\<not> integrity_abort env raw_log expected_hash"
  shows "run_pipeline env raw_log expected_hash w =
           process_log env raw_log (sha256_hexdigest env raw_log) True w"
  using assms by (simp add: run_pipeline_cases)

lemma run_pipeline_True:
  assumes "fst (run_pipeline env raw_log expected_hash w) = Inr True"
  shows "\<not> integrity_abort env raw_log expected_hash"
  using assms by (auto simp: run_pipeline_cases tamper_abort_eq split: if_splits)

lemma violation_msg_not_Nil: "violation_msg cid u a b \<noteq> []"
  by (simp add: violation_msg_def)

lemma check_conflicts_msgs:
  "check_conflicts sod u acts cps vs = Inr vs' \<Longrightarrow> \<forall>v \<in> set vs. v \<noteq> [] \<Longrightarrow>
   \<forall>v \<in> set vs'. v \<noteq> []"
proof (induction cps arbitrary: vs)
  case Nil
  then show ?case by simp
next
  case (Cons c cps)
  from Cons.prems(1) obtain a b where c: "c = [a, b]"
    by (auto split: list.splits)
  show ?case
  proof (cases "a \<in> acts \<and> b \<in> acts")
    case True
    with Cons.prems(1) c obtain cid where cid: "rule_id sod = Some cid"
      by (cases "rule_id sod") (simp_all add: Let_def)
    have run: "check_conflicts sod u acts cps (vs @ [violation_msg cid u a b]) = Inr vs'"
      using Cons.prems(1) c True cid by (simp add: Let_def)
    have "\<forall>v \<in> set (vs @ [violation_msg cid u a b]). v \<noteq> []"
      using Cons.prems(2) by (simp add: violation_msg_not_Nil)
    with run show ?thesis by (rule Cons.IH)
  next
    case False
    then have "check_conflicts sod u acts cps vs = Inr vs'"
      using Cons.prems(1) c by (auto simp: Let_def)
    then show ?thesis using Cons.prems(2) by (rule Cons.IH)
  qed
qed

lemma analyze_log_msgs:
  "fst (analyze_log eng ev) = Inr vs \<Longrightarrow> v \<in> set vs \<Longrightarrow> v \<noteq> []"
  using check_conflicts_msgs [of _ _ _ _ "[]" vs]
  by (auto simp: analyze_log_def check_sod_def Let_def
      split: option.splits if_splits json.splits rules_value.splits rule_value.splits)

lemma process_log_rows:
  assumes "semantic_parsing env raw = Inr (JDict d)"
    and "fst (analyze_log (engine w) (JDict d)) = Inr vs"
  shows
  "let w' = snd (process_log env raw h st w);
       rows = drop (length (AuditItems w)) (AuditItems w')
   in take (length (AuditItems w)) (AuditItems w') = AuditItems w \<and>
      length rows = max 1 (length vs) \<and>
      (\<forall>r \<in> set rows. audit_LogID r = LogID (last (IntegrityBaseline w'))) \<and>
      (vs = [] \<longrightarrow> map Verdict rows = [''Clear''] \<and> map EvidenceArtifact rows = [None]) \<and>
      (vs \<noteq> [] \<longrightarrow> (\<forall>r \<in> set rows. Verdict r = ''Violation'' \<and> EvidenceArtifact r \<noteq> None) \<and>
                  map reason_of rows = map Some vs)"
proof (cases "vs = []")
  case True
  show ?thesis
    using process_log_clear [OF assms(1), of w h st] assms(2) True
    by (simp add: Let_def process_log_baseline [OF assms])
next
  case False
  from process_log_violation [OF assms False, of h st] obtain rows where rows:
    "AuditItems (snd (process_log env raw h st w)) = AuditItems w @ rows"
    "length rows = length vs"
    "\<forall>r \<in> set rows. Verdict r = ''Violation'' \<and>
                     audit_LogID r = next_rowid (map LogID (IntegrityBaseline w)) \<and>
                     EvidenceArtifact r \<noteq> None"
    "map reason_of rows = map (\<lambda>v. if v = [] then None else Some v) vs"
    by blast
  have "map (\<lambda>v. if v = [] then None else Some v) vs = map Some vs"
    using analyze_log_msgs [OF assms(2)] by (intro map_cong) auto
  moreover have "1 \<le> length vs"
    using False by (cases vs) auto
  ultimately show ?thesis
    using rows False by (simp add: Let_def process_log_baseline [OF assms] max_def)
qed


lemma contains_Nil: "contains [] s"
  by (cases s) simp_all


















lemmas eval_pipeline =
  run_pipeline_cases integrity_abort_def truthy_def process_log_def
  semantic_parsing_def fallback_parsing_def parse_log_with_phi3_def stub_env_def fresh_world_def
  fallback_split_def split_def index_def
  analyze_log_def check_sod_def update_user_state_def violation_msg_def
  RuleEngine_init_def sod_policy_def two_pair_policy_def event_def
  save_log_baseline_def save_audit_item_def generate_evidence_artifact_def save_artifact_def
  next_rowid_def dict_get_def Let_def

section \<open>The claims\<close>

text \<open>
  C1. For every raw log line and every supplied expected baseline that differs from the
  digest of the raw log, \<open>run_pipeline\<close> returns False and writes exactly one artifact, with
  status VIOLATION, \<open>IntegrityVerified\<close> false and the reason
  "Hash Mismatch - Potential Log Tampering"; the parser and the rule engine are not called,
  no baseline row and no finding row is stored, and the engine is as it was. A baseline is
  supplied when \<open>if expected_hash:\<close> holds, that is when it is not the empty string; a
  digest is a string of 64 hexadecimal characters, so every digest is supplied in this sense.
\<close>

theorem tamper_short_circuit:
  assumes "h \<noteq> []" and "sha256_hexdigest env raw_log \<noteq> h"
  shows "run_pipeline env raw_log (Some h) w =
    (Inr False,
     w\<lparr>files := files w @
          [(ARTIFACTS_DIR @ ''/'' @ uuid4 env (clock w) @ ''.json'',
            \<lparr>EvidenceID = uuid4 env (clock w),
             Timestamp = now_isoformat env (clock w),
             NIST_Control = ''AC-5 (Separation of Duties)'',
             Status = ''VIOLATION'',
             SourceLog = \<lparr>Raw = raw_log, IntegrityVerified = False\<rparr>,
             Details = JDict [''Event'' \<mapsto> ''Tampering Detected''],
             ViolationReason = Some ''Hash Mismatch - Potential Log Tampering''\<rparr>)],
        clock := Suc (clock w)\<rparr>) \<and>
    engine (snd (run_pipeline env raw_log (Some h) w)) = engine w \<and>
    IntegrityBaseline (snd (run_pipeline env raw_log (Some h) w)) = IntegrityBaseline w \<and>
    AuditItems (snd (run_pipeline env raw_log (Some h) w)) = AuditItems w \<and>
    calls (snd (run_pipeline env raw_log (Some h) w)) = calls w"
proof -
  have "integrity_abort env raw_log (Some h)"
    using assms by (simp add: integrity_abort_def truthy_def verify_integrity_def generate_sha256_def)
  then have "run_pipeline env raw_log (Some h) w = tamper_abort env raw_log w"
    by (simp add: run_pipeline_cases)
  then show ?thesis
    by (simp add: tamper_abort_eq)
qed

theorem tamper_short_circuit_witness:
  "sha256_hexdigest (stub_env None) ''sshd[19939]: accepted password; user=root''
     \<noteq> sha256_hexdigest (stub_env None) ''sshd[19939]: authentication failure; user=root'' \<and>
   fst (run_pipeline (stub_env None) ''sshd[19939]: accepted password; user=root''
          (Some (sha256_hexdigest (stub_env None) ''sshd[19939]: authentication failure; user=root''))
          (fresh_world (RuleEngine_init OpenFails))) = Inr False \<and>
   map (\<lambda>f. (Status (snd f), IntegrityVerified (SourceLog (snd f)), ViolationReason (snd f)))
     (files (snd (run_pipeline (stub_env None) ''sshd[19939]: accepted password; user=root''
          (Some (sha256_hexdigest (stub_env None) ''sshd[19939]: authentication failure; user=root''))
          (fresh_world (RuleEngine_init OpenFails)))))
     = [(''VIOLATION'', False, Some ''Hash Mismatch - Potential Log Tampering'')] \<and>
   AuditItems (snd (run_pipeline (stub_env None) ''sshd[19939]: accepted password; user=root''
          (Some (sha256_hexdigest (stub_env None) ''sshd[19939]: authentication failure; user=root''))
          (fresh_world (RuleEngine_init OpenFails)))) = [] \<and>
   IntegrityBaseline (snd (run_pipeline (stub_env None) ''sshd[19939]: accepted password; user=root''
          (Some (sha256_hexdigest (stub_env None) ''sshd[19939]: authentication failure; user=root''))
          (fresh_world (RuleEngine_init OpenFails)))) = []"
  using tamper_short_circuit
    [of "sha256_hexdigest (stub_env None) ''sshd[19939]: authentication failure; user=root''"
        "stub_env None" "''sshd[19939]: accepted password; user=root''"
        "fresh_world (RuleEngine_init OpenFails)"]
  by (simp add: stub_env_def fresh_world_def)

text \<open>
  C2. An engine freshly constructed from a policy whose SoD rule holds the single conflict pair
  (Create\_Invoice, Approve\_Payment), with any control id \<open>cid\<close>: the call for u1 with
  Create\_Invoice returns no violation, and the call for u1 with Approve\_Payment that follows
  returns exactly one violation, whose message names the control id and both actions.
\<close>

theorem sod_detection:
  "fst (analyze_log
          (RuleEngine_init (Parsed (Mapping (Some
             (sod_policy cid [(''Create_Invoice'', ''Approve_Payment'')])))))
          (event ''u1'' ''Create_Invoice'')) = Inr [] \<and>
   fst (analyze_log
          (snd (analyze_log
                  (RuleEngine_init (Parsed (Mapping (Some
                     (sod_policy cid [(''Create_Invoice'', ''Approve_Payment'')])))))
                  (event ''u1'' ''Create_Invoice'')))
          (event ''u1'' ''Approve_Payment'')) =
     Inr [''SoD VIOLATION DETECTED ('' @ cid @ ''): User '' @ [CHR 0x27] @ ''u1'' @ [CHR 0x27] @
          '' performed conflicting actions: Create_Invoice + Approve_Payment'']"
  by (simp add: analyze_log_def check_sod_def update_user_state_def Let_def violation_msg_def
      RuleEngine_init_def sod_policy_def event_def)

theorem sod_detection_witness:
  "fst (analyze_log
          (snd (analyze_log
                  (RuleEngine_init (Parsed (Mapping (Some
                     (sod_policy ''AC-5'' [(''Create_Invoice'', ''Approve_Payment'')])))))
                  (event ''u1'' ''Create_Invoice'')))
          (event ''u1'' ''Approve_Payment'')) =
     Inr [''SoD VIOLATION DETECTED (AC-5): User '' @ [CHR 0x27] @ ''u1'' @ [CHR 0x27] @
          '' performed conflicting actions: Create_Invoice + Approve_Payment'']"
  using sod_detection [of "''AC-5''"] by simp

text \<open>
  C3 (as amended). When \<open>run_pipeline\<close> returns True, the parser stage gave an event and the
  rule engine returned a list of violations for it, and the finding rows added are: one row
  with verdict Violation for each violation the rule engine returned, each with its own
  evidence artifact carrying that violation's message, or, when the engine returned none,
  exactly one row with verdict Clear and an empty evidence payload. So the number of rows added
  is the number of violations, or one when there are none; all of them reference the baseline
  row stored for this log line, and the rows stored before are kept.
\<close>

theorem finding_rows_per_log:
  assumes "fst (run_pipeline env raw_log expected_hash w) = Inr True"
  shows "\<exists>structured_data violations.
           semantic_parsing env raw_log = Inr structured_data \<and>
           fst (analyze_log (engine w) structured_data) = Inr violations \<and>
           (let w' = snd (run_pipeline env raw_log expected_hash w);
                rows = drop (length (AuditItems w)) (AuditItems w')
            in take (length (AuditItems w)) (AuditItems w') = AuditItems w \<and>
               length rows = max 1 (length violations) \<and>
               (\<forall>r \<in> set rows. audit_LogID r = LogID (last (IntegrityBaseline w'))) \<and>
               (violations = [] \<longrightarrow>
                  map Verdict rows = [''Clear''] \<and> map EvidenceArtifact rows = [None]) \<and>
               (violations \<noteq> [] \<longrightarrow>
                  (\<forall>r \<in> set rows. Verdict r = ''Violation'' \<and> EvidenceArtifact r \<noteq> None) \<and>
                  map reason_of rows = map Some violations))"
proof -
  have na: "\<not> integrity_abort env raw_log expected_hash"
    using assms by (rule run_pipeline_True)
  have rp: "run_pipeline env raw_log expected_hash w =
              process_log env raw_log (sha256_hexdigest env raw_log) True w"
    using na by (rule run_pipeline_normal)
  from assms obtain d vs where sd: "semantic_parsing env raw_log = Inr (JDict d)"
    and vs: "fst (analyze_log (engine w) (JDict d)) = Inr vs"
    unfolding rp by (blast dest: process_log_True)
  show ?thesis
    unfolding rp
    using sd vs process_log_rows [OF sd vs, of "sha256_hexdigest env raw_log" True]
    by (intro exI [of _ "JDict d"] exI [of _ vs]) simp
qed

theorem finding_rows_per_log_witness:
  "fst (run_pipeline (stub_env None) ''User u1 executed action: Approve_Payment ID=INV-2024-001'' None
          (fresh_world \<lparr>rules = sod_policy ''AC-5'' [(''Create_Invoice'', ''Approve_Payment'')],
                        user_state = [''u1'' \<mapsto> {''Create_Invoice''}]\<rparr>)) = Inr True \<and>
   map (\<lambda>r. (audit_LogID r, Verdict r, reason_of r))
     (AuditItems (snd (run_pipeline (stub_env None)
          ''User u1 executed action: Approve_Payment ID=INV-2024-001'' None
          (fresh_world \<lparr>rules = sod_policy ''AC-5'' [(''Create_Invoice'', ''Approve_Payment'')],
                        user_state = [''u1'' \<mapsto> {''Create_Invoice''}]\<rparr>))))
     = [(1, ''Violation'',
         Some (''SoD VIOLATION DETECTED (AC-5): User '' @ [CHR 0x27] @ ''u1'' @ [CHR 0x27] @
               '' performed conflicting actions: Create_Invoice + Approve_Payment''))]"
  using finding_rows_per_log
    [of "stub_env None" "''User u1 executed action: Approve_Payment ID=INV-2024-001''" None
        "fresh_world \<lparr>rules = sod_policy ''AC-5'' [(''Create_Invoice'', ''Approve_Payment'')],
                      user_state = [''u1'' \<mapsto> {''Create_Invoice''}]\<rparr>"]
  by (simp add: eval_pipeline reason_of_def)

text \<open>
  C3 as stated fails when the engine returns two violations for one log line. With a policy
  of two conflict pairs sharing Create\_Invoice, the third of three log lines for u1 satisfies
  both pairs: \<open>run_pipeline\<close> returns True and two finding rows are stored for that one log
  line (log id 3).
\<close>

theorem finding_rows_per_log_counterexample:
  "fst (run_pipeline (stub_env None) ''User u1 executed action: Delete_Invoice'' None
          (run_logs (stub_env None)
             [''User u1 executed action: Create_Invoice'',
              ''User u1 executed action: Approve_Payment'']
             (fresh_world (RuleEngine_init (Parsed (Mapping (Some two_pair_policy))))))) = Inr True \<and>
   map (\<lambda>r. (audit_LogID r, Verdict r))
     (AuditItems (snd (run_pipeline (stub_env None) ''User u1 executed action: Delete_Invoice'' None
          (run_logs (stub_env None)
             [''User u1 executed action: Create_Invoice'',
              ''User u1 executed action: Approve_Payment'']
             (fresh_world (RuleEngine_init (Parsed (Mapping (Some two_pair_policy)))))))))
     = [(1, ''Clear''), (2, ''Violation''), (3, ''Violation''), (3, ''Violation'')]"
  by (simp add: eval_pipeline)

text \<open>
  C4. When the event has no \<open>user\<close> or no \<open>action\<close>, or either is the empty string,
  \<open>analyze_log\<close> returns the empty list and the engine after the call is the engine before it,
  whatever the engine's rules are.
\<close>

theorem partial_event_safety:
  "ev ''user'' = None \<or> ev ''user'' = Some [] \<or> ev ''action'' = None \<or> ev ''action'' = Some []
   \<Longrightarrow> analyze_log eng (JDict ev) = (Inr [], eng)"
  by (auto simp: analyze_log_def split: option.splits)

theorem partial_event_safety_witness:
  "analyze_log \<lparr>rules = sod_policy ''AC-5'' [(''x'', ''y'')], user_state = [''u1'' \<mapsto> {''y''}]\<rparr>
       (JDict [''user'' \<mapsto> ''u1''])
     = (Inr [], \<lparr>rules = sod_policy ''AC-5'' [(''x'', ''y'')], user_state = [''u1'' \<mapsto> {''y''}]\<rparr>) \<and>
   analyze_log \<lparr>rules = sod_policy ''AC-5'' [(''x'', ''y'')], user_state = [''u1'' \<mapsto> {''y''}]\<rparr>
       (JDict [''action'' \<mapsto> ''x''])
     = (Inr [], \<lparr>rules = sod_policy ''AC-5'' [(''x'', ''y'')], user_state = [''u1'' \<mapsto> {''y''}]\<rparr>)"
  using partial_event_safety [of "[''user'' \<mapsto> ''u1'']"]
        partial_event_safety [of "[''action'' \<mapsto> ''x'']"]
  by simp

text \<open>
  C5. Over any sequence of \<open>analyze_log\<close> calls, whatever their arguments and whatever they
  return or raise, every actor's action set after the sequence contains the set before it,
  and no actor is forgotten. For a present actor A and present actions X and Y: after the
  calls (A, X) and (A, Y) the set of A holds both X and Y, and a further call (A, X) leaves the
  engine as it is.
\<close>

theorem monotonic_history:
  "(\<forall>u. actions_of eng u \<subseteq> actions_of (snd (analyze_seq eng evs)) u) \<and>
   dom (user_state eng) \<subseteq> dom (user_state (snd (analyze_seq eng evs))) \<and>
   (A \<noteq> [] \<and> X \<noteq> [] \<and> Y \<noteq> [] \<longrightarrow>
      (let e2 = snd (analyze_seq eng [event A X, event A Y]);
           e3 = snd (analyze_log e2 (event A X))
       in X \<in> actions_of e2 A \<and> Y \<in> actions_of e2 A \<and> e3 = e2))"
proof (intro conjI allI impI)
  fix u show "actions_of eng u \<subseteq> actions_of (snd (analyze_seq eng evs)) u"
    by (rule analyze_seq_mono)
next
  show "dom (user_state eng) \<subseteq> dom (user_state (snd (analyze_seq eng evs)))"
    by (rule analyze_seq_dom)
next
  assume ne: "A \<noteq> [] \<and> X \<noteq> [] \<and> Y \<noteq> []"
  have e2: "snd (analyze_seq eng [event A X, event A Y]) =
              eng\<lparr>user_state := (user_state eng)(A \<mapsto> insert Y (insert X (actions_of eng A)))\<rparr>"
    using ne by (simp add: split_beta analyze_log_event actions_of_def)
  show "let e2 = snd (analyze_seq eng [event A X, event A Y]);
            e3 = snd (analyze_log e2 (event A X))
        in X \<in> actions_of e2 A \<and> Y \<in> actions_of e2 A \<and> e3 = e2"
    unfolding Let_def e2 using ne
    by (simp add: analyze_log_event actions_of_def insert_absorb)
qed

theorem monotonic_history_witness:
  "''alice'' \<noteq> [] \<and> ''x'' \<noteq> [] \<and> ''y'' \<noteq> [] \<and>
   ''x'' \<in> actions_of (snd (analyze_seq (RuleEngine_init OpenFails)
                              [event ''alice'' ''x'', event ''alice'' ''y''])) ''alice'' \<and>
   ''y'' \<in> actions_of (snd (analyze_seq (RuleEngine_init OpenFails)
                              [event ''alice'' ''x'', event ''alice'' ''y''])) ''alice'' \<and>
   snd (analyze_log (snd (analyze_seq (RuleEngine_init OpenFails)
                            [event ''alice'' ''x'', event ''alice'' ''y'']))
          (event ''alice'' ''x''))
     = snd (analyze_seq (RuleEngine_init OpenFails) [event ''alice'' ''x'', event ''alice'' ''y''])"
  using monotonic_history [of "RuleEngine_init OpenFails" "[]" "''alice''" "''x''" "''y''"]
  by (simp add: Let_def)

text \<open>
  C6. Let the SoD rule have a control id and two-element conflict entries, let (a, b) be one
  of them and let both a and b be in the action set of actor u. Then, after any further
  sequence of calls, every call for u with a present action returns a list that holds the
  violation message of that pair again: nothing suppresses a pair that was reported before.
\<close>

theorem violation_refires:
  assumes "rules eng = Rules rs" and "rs ''nist_ac2_sod'' = Some (Rule sod)"
    and "rule_id sod = Some cid" and "\<forall>c \<in> set (conflict_actions sod). length c = 2"
    and "[a, b] \<in> set (conflict_actions sod)"
    and "a \<in> actions_of eng u" and "b \<in> actions_of eng u"
    and "ev ''user'' = Some u" and "u \<noteq> []"
    and "ev ''action'' = Some x" and "x \<noteq> []"
  shows "case fst (analyze_log (snd (analyze_seq eng evs)) (JDict ev)) of
           Inr violations \<Rightarrow> violation_msg cid u a b \<in> set violations
         | Inl e \<Rightarrow> False"
proof -
  let ?e = "snd (analyze_seq eng evs)"
  let ?acts = "insert x (actions_of ?e u)"
  let ?e1 = "?e\<lparr>user_state := (user_state ?e)(u \<mapsto> ?acts)\<rparr>"
  have r: "rules ?e1 = Rules rs"
    using assms(1) by (simp add: analyze_seq_rules)
  have ab: "a \<in> ?acts" "b \<in> ?acts"
    using assms(6,7) analyze_seq_mono [of eng u evs] by auto
  have "fst (analyze_log ?e (JDict ev)) = check_sod ?e1 u"
    using analyze_log_present [OF assms(8,9,10,11), of ?e] by simp
  also have "\<dots> = check_conflicts sod u ?acts (conflict_actions sod) []"
    using r assms(2) by (simp add: check_sod_def)
  also have "\<dots> = Inr ([] @ map (\<lambda>c. violation_msg cid u (c ! 0) (c ! 1))
                        (filter (\<lambda>c. c ! 0 \<in> ?acts \<and> c ! 1 \<in> ?acts) (conflict_actions sod)))"
    using assms(3,4) by (rule check_conflicts_shaped)
  finally have res: "fst (analyze_log ?e (JDict ev)) =
      Inr (map (\<lambda>c. violation_msg cid u (c ! 0) (c ! 1))
             (filter (\<lambda>c. c ! 0 \<in> ?acts \<and> c ! 1 \<in> ?acts) (conflict_actions sod)))"
    by simp
  have "[a, b] \<in> set (filter (\<lambda>c. c ! 0 \<in> ?acts \<and> c ! 1 \<in> ?acts) (conflict_actions sod))"
    using assms(5) ab by simp
  then have "violation_msg cid u a b
               \<in> set (map (\<lambda>c. violation_msg cid u (c ! 0) (c ! 1))
                    (filter (\<lambda>c. c ! 0 \<in> ?acts \<and> c ! 1 \<in> ?acts) (conflict_actions sod)))"
    unfolding set_map by (intro image_eqI [of _ _ "[a, b]"]) simp_all
  then show ?thesis
    unfolding res by simp
qed

theorem violation_refires_witness:
  "fst (analyze_log
        (snd (analyze_seq
           \<lparr>rules = sod_policy ''AC-5'' [(''Create_Invoice'', ''Approve_Payment'')],
            user_state = [''u1'' \<mapsto> {''Create_Invoice'', ''Approve_Payment''}]\<rparr>
           [event ''u2'' ''Approve_Payment'']))
        (event ''u1'' ''View_Report''))
     = Inr [violation_msg ''AC-5'' ''u1'' ''Create_Invoice'' ''Approve_Payment'']"
  using violation_refires
    [of "\<lparr>rules = sod_policy ''AC-5'' [(''Create_Invoice'', ''Approve_Payment'')],
          user_state = [''u1'' \<mapsto> {''Create_Invoice'', ''Approve_Payment''}]\<rparr>"
        "[''nist_ac2_sod'' \<mapsto> Rule \<lparr>rule_id = Some ''AC-5'',
            conflict_actions = [[''Create_Invoice'', ''Approve_Payment'']]\<rparr>]"
        "\<lparr>rule_id = Some ''AC-5'', conflict_actions = [[''Create_Invoice'', ''Approve_Payment'']]\<rparr>"
        "''AC-5''" "''Create_Invoice''" "''Approve_Payment''" "''u1''"
        "[''user'' \<mapsto> ''u1'', ''action'' \<mapsto> ''View_Report'']" "''View_Report''"
        "[event ''u2'' ''Approve_Payment'']"]
  by (simp add: sod_policy_def event_def actions_of_def analyze_log_def check_sod_def
      update_user_state_def Let_def)

text \<open>
  C7 (as amended). When the policy file cannot be opened, cannot be parsed, parses to
  something that is not a mapping, or parses to a mapping without the key \<open>rules\<close>, the engine
  is constructed with the empty rule set (no error is raised), the rule set stays empty, and
  every later call of \<open>analyze_log\<close> on an event dict returns the empty list. The pipeline
  goes on with that engine: a log line with no integrity check asked for, for which the
  parsing stage gives an event dict, is processed to the end, \<open>run_pipeline\<close> returns True and
  the one finding row it adds has the verdict Clear.
\<close>

theorem fail_open_policy:
  "src = OpenFails \<or> src = YamlError \<or> src = Parsed NotAMapping \<or> src = Parsed (Mapping None) \<Longrightarrow>
   rules (RuleEngine_init src) = Rules Map.empty \<and>
   (\<forall>v \<in> set (fst (analyze_seq (RuleEngine_init src) (map JDict evs))). v = Inr []) \<and>
   rules (snd (analyze_seq (RuleEngine_init src) (map JDict evs))) = Rules Map.empty \<and>
   (semantic_parsing env raw_log = Inr (JDict d) \<longrightarrow>
      fst (run_pipeline env raw_log None
             (w\<lparr>engine := snd (analyze_seq (RuleEngine_init src) (map JDict evs))\<rparr>)) = Inr True \<and>
      map Verdict (drop (length (AuditItems w))
          (AuditItems (snd (run_pipeline env raw_log None
             (w\<lparr>engine := snd (analyze_seq (RuleEngine_init src) (map JDict evs))\<rparr>)))))
        = [''Clear''])"
proof -
  assume src: "src = OpenFails \<or> src = YamlError \<or> src = Parsed NotAMapping \<or>
               src = Parsed (Mapping None)"
  let ?e = "snd (analyze_seq (RuleEngine_init src) (map JDict evs))"
  let ?w = "w\<lparr>engine := ?e\<rparr>"
  have r0: "rules (RuleEngine_init src) = Rules Map.empty"
    using src by (auto simp: RuleEngine_init_def)
  have none: "Map.empty ''nist_ac2_sod'' = (None :: rule_value option)"
    by simp
  have r1: "rules ?e = Rules Map.empty"
    using r0 by (simp add: analyze_seq_rules)
  have all: "\<forall>v \<in> set (fst (analyze_seq (RuleEngine_init src) (map JDict evs))). v = Inr []"
    using r0 none by (rule analyze_seq_no_rule)
  have na: "\<not> integrity_abort env raw_log None"
    by (simp add: integrity_abort_def)
  have pipe: "fst (run_pipeline env raw_log None ?w) = Inr True \<and>
              map Verdict (drop (length (AuditItems w))
                (AuditItems (snd (run_pipeline env raw_log None ?w)))) = [''Clear'']"
    if sd: "semantic_parsing env raw_log = Inr (JDict d)"
  proof -
    have "rules (engine ?w) = Rules Map.empty"
      using r1 by simp
    then have clear: "fst (analyze_log (engine ?w) (JDict d)) = Inr []"
      using none by (rule analyze_log_no_rule)
    show ?thesis
      unfolding run_pipeline_normal [OF na]
      using process_log_clear [OF sd clear, of "sha256_hexdigest env raw_log" True]
            process_log_fst [OF sd clear, of "sha256_hexdigest env raw_log" True]
      by simp
  qed
  show ?thesis
    using r0 r1 all pipe by blast
qed

theorem fail_open_policy_witness:
  "rules (RuleEngine_init YamlError) = Rules Map.empty \<and>
   fst (analyze_seq (RuleEngine_init YamlError)
          [event ''u1'' ''Create_Invoice'', event ''u1'' ''Approve_Payment'']) = [Inr [], Inr []] \<and>
   fst (run_pipeline (stub_env None) ''User u1 executed action: Approve_Payment'' None
       (fresh_world (snd (analyze_seq (RuleEngine_init YamlError)
          [event ''u1'' ''Create_Invoice'', event ''u1'' ''Approve_Payment''])))) = Inr True \<and>
   map Verdict (AuditItems (snd (run_pipeline (stub_env None)
       ''User u1 executed action: Approve_Payment'' None
       (fresh_world (snd (analyze_seq (RuleEngine_init YamlError)
          [event ''u1'' ''Create_Invoice'', event ''u1'' ''Approve_Payment''])))))) = [''Clear'']"
  using fail_open_policy
    [of YamlError
        "[[''user'' \<mapsto> ''u1'', ''action'' \<mapsto> ''Create_Invoice''],
          [''user'' \<mapsto> ''u1'', ''action'' \<mapsto> ''Approve_Payment'']]"
        "stub_env None" "''User u1 executed action: Approve_Payment''"
        "[''user'' \<mapsto> ''u1'', ''action'' \<mapsto> ''Approve_Payment'']"
        "fresh_world (RuleEngine_init YamlError)"]
  by (simp add: split_beta fresh_world_def event_def semantic_parsing_def fallback_parsing_def
      parse_log_with_phi3_def stub_env_def fallback_split_def split_def index_def Let_def)

text \<open>
  C7 as stated fails for a policy file that parses but is malformed: nothing checks what was
  parsed. For the file \<open>rules:\<close> (the key with no value) \<open>config.get("rules", {})\<close> returns
  \<open>None\<close> and raises nothing, so the engine is constructed with that value and not with an
  empty rule set. The first call with a user and an action records the action and then raises
  AttributeError at \<open>self.rules.get\<close>; \<open>run_pipeline\<close> ends with that exception and stores
  no finding row. Likewise a rule whose conflict entry has one element is loaded as it is, and
  every call with a user and an action raises ValueError when the entry is unpacked.
\<close>

theorem fail_open_policy_counterexample:
  "rules (RuleEngine_init (Parsed (Mapping (Some RulesNotDict)))) \<noteq> Rules Map.empty \<and>
   analyze_log (RuleEngine_init (Parsed (Mapping (Some RulesNotDict))))
       (event ''u1'' ''Create_Invoice'')
     = (Inl AttributeError,
        \<lparr>rules = RulesNotDict, user_state = [''u1'' \<mapsto> {''Create_Invoice''}]\<rparr>) \<and>
   fst (run_pipeline (stub_env None) ''User u1 executed action: Create_Invoice'' None
          (fresh_world (RuleEngine_init (Parsed (Mapping (Some RulesNotDict))))))
     = Inl AttributeError \<and>
   AuditItems (snd (run_pipeline (stub_env None) ''User u1 executed action: Create_Invoice'' None
          (fresh_world (RuleEngine_init (Parsed (Mapping (Some RulesNotDict))))))) = [] \<and>
   fst (analyze_log
          (RuleEngine_init (Parsed (Mapping (Some (Rules [''nist_ac2_sod'' \<mapsto>
             Rule \<lparr>rule_id = Some ''AC-5'', conflict_actions = [[''Create_Invoice'']]\<rparr>])))))
          (event ''u1'' ''Create_Invoice'')) = Inl ValueError"
  by (simp add: eval_pipeline)




text \<open>
  C9. The outcome of a call for an event naming actor B is the same in any two engines that
  have the same rules and the same action set for B, whatever they hold for other actors; and
  calls naming other actors, made before, do not change what the call for B returns.
\<close>

theorem no_cross_actor_leakage:
  assumes "rules e1 = rules e2" and "ev ''user'' = Some B"
    and "actions_of e1 B = actions_of e2 B"
  shows "fst (analyze_log e1 (JDict ev)) = fst (analyze_log e2 (JDict ev)) \<and>
         ((\<forall>ev' \<in> set evs. ev' ''user'' \<noteq> Some B) \<longrightarrow>
            fst (analyze_log (snd (analyze_seq e1 (map JDict evs))) (JDict ev))
              = fst (analyze_log e1 (JDict ev)))"
proof (intro conjI impI)
  show "fst (analyze_log e1 (JDict ev)) = fst (analyze_log e2 (JDict ev))"
    using assms by (rule analyze_log_fst_depends)
next
  assume "\<forall>ev' \<in> set evs. ev' ''user'' \<noteq> Some B"
  then have "user_state (snd (analyze_seq e1 (map JDict evs))) B = user_state e1 B"
    by (rule analyze_seq_other_actor)
  then have "actions_of (snd (analyze_seq e1 (map JDict evs))) B = actions_of e1 B"
    by (simp add: actions_of_def)
  then show "fst (analyze_log (snd (analyze_seq e1 (map JDict evs))) (JDict ev))
               = fst (analyze_log e1 (JDict ev))"
    using assms(2) by (intro analyze_log_fst_depends) (simp_all add: analyze_seq_rules)
qed

theorem no_cross_actor_leakage_witness:
  "fst (analyze_log
          \<lparr>rules = sod_policy ''AC-5'' [(''Create_Invoice'', ''Approve_Payment'')],
           user_state = [''alice'' \<mapsto> {''Create_Invoice''}, ''bob'' \<mapsto> {''Login''}]\<rparr>
          (event ''bob'' ''Approve_Payment''))
     = fst (analyze_log
          \<lparr>rules = sod_policy ''AC-5'' [(''Create_Invoice'', ''Approve_Payment'')],
           user_state = [''bob'' \<mapsto> {''Login''}]\<rparr>
          (event ''bob'' ''Approve_Payment'')) \<and>
   fst (analyze_log
          (snd (analyze_seq
             \<lparr>rules = sod_policy ''AC-5'' [(''Create_Invoice'', ''Approve_Payment'')],
              user_state = [''alice'' \<mapsto> {''Create_Invoice''}, ''bob'' \<mapsto> {''Login''}]\<rparr>
             [event ''alice'' ''Approve_Payment'']))
          (event ''bob'' ''Approve_Payment''))
     = fst (analyze_log
          \<lparr>rules = sod_policy ''AC-5'' [(''Create_Invoice'', ''Approve_Payment'')],
           user_state = [''alice'' \<mapsto> {''Create_Invoice''}, ''bob'' \<mapsto> {''Login''}]\<rparr>
          (event ''bob'' ''Approve_Payment''))"
  using no_cross_actor_leakage
    [of "\<lparr>rules = sod_policy ''AC-5'' [(''Create_Invoice'', ''Approve_Payment'')],
          user_state = [''alice'' \<mapsto> {''Create_Invoice''}, ''bob'' \<mapsto> {''Login''}]\<rparr>"
        "\<lparr>rules = sod_policy ''AC-5'' [(''Create_Invoice'', ''Approve_Payment'')],
          user_state = [''bob'' \<mapsto> {''Login''}]\<rparr>"
        "[''user'' \<mapsto> ''bob'', ''action'' \<mapsto> ''Approve_Payment'']" "''bob''"
        "[[''user'' \<mapsto> ''alice'', ''action'' \<mapsto> ''Approve_Payment'']]"]
  by (simp add: event_def actions_of_def)

text \<open>
  C10. For an event whose \<open>user\<close> and \<open>action\<close> are both present, \<open>analyze_log\<close> adds the
  action to that user's set whatever the rules are. When the rule set has no SoD rule (the
  empty rule set included) the call returns the empty list and the action is recorded all the
  same; over any list of present actions every call returns the empty list and the user's set
  ends up holding all of them, so the history grows with no bound.
\<close>

theorem history_recorded_without_policy:
  assumes "ev ''user'' = Some u" and "u \<noteq> []" and "ev ''action'' = Some a" and "a \<noteq> []"
  shows "user_state (snd (analyze_log eng (JDict ev)))
           = (user_state eng)(u \<mapsto> insert a (actions_of eng u)) \<and>
         (rules eng = Rules rs \<and> rs ''nist_ac2_sod'' = None \<longrightarrow>
            fst (analyze_log eng (JDict ev)) = Inr [] \<and>
            ((\<forall>x \<in> set xs. x \<noteq> []) \<longrightarrow>
               (\<forall>v \<in> set (fst (analyze_seq eng (map (event u) xs))). v = Inr []) \<and>
               actions_of (snd (analyze_seq eng (map (event u) xs))) u = actions_of eng u \<union> set xs))"
proof (intro conjI impI)
  show "user_state (snd (analyze_log eng (JDict ev)))
          = (user_state eng)(u \<mapsto> insert a (actions_of eng u))"
    by (simp add: analyze_log_present [OF assms])
next
  assume "rules eng = Rules rs \<and> rs ''nist_ac2_sod'' = None"
  then have "rules eng = Rules rs" and "rs ''nist_ac2_sod'' = None"
    by simp_all
  then show "fst (analyze_log eng (JDict ev)) = Inr []"
    by (rule analyze_log_no_rule)
next
  assume "rules eng = Rules rs \<and> rs ''nist_ac2_sod'' = None"
  then have "rules eng = Rules rs" and "rs ''nist_ac2_sod'' = None"
    by simp_all
  then show "\<forall>v \<in> set (fst (analyze_seq eng (map (event u) xs))). v = Inr []"
    by (rule analyze_seq_events_no_rule)
next
  assume "\<forall>x \<in> set xs. x \<noteq> []"
  with assms(2) show "actions_of (snd (analyze_seq eng (map (event u) xs))) u
                        = actions_of eng u \<union> set xs"
    by (rule analyze_seq_accumulates)
qed

theorem history_recorded_without_policy_witness:
  "fst (analyze_log (RuleEngine_init OpenFails) (event ''u1'' ''a'')) = Inr [] \<and>
   user_state (snd (analyze_log (RuleEngine_init OpenFails) (event ''u1'' ''a'')))
     = [''u1'' \<mapsto> {''a''}] \<and>
   fst (analyze_seq (RuleEngine_init OpenFails) (map (event ''u1'') [''b'', ''c'']))
     = [Inr [], Inr []] \<and>
   actions_of (snd (analyze_seq (RuleEngine_init OpenFails) (map (event ''u1'') [''b'', ''c''])))
     ''u1'' = {''b'', ''c''}"
  using history_recorded_without_policy
    [of "[''user'' \<mapsto> ''u1'', ''action'' \<mapsto> ''a'']" "''u1''" "''a''"
        "RuleEngine_init OpenFails" Map.empty "[''b'', ''c'']"]
  by (simp add: event_def RuleEngine_init_def actions_of_def split_beta)

end
